theory Spec2Isabelle
  imports Complex_Main "HOL-Library.Multiset"
begin

section \<open>Cities and the cost model\<close>

text \<open>
  The program is a simulated-annealing heuristic for the Euclidean travelling-salesman
  problem (\<^verbatim>\<open>main.cpp\<close>). The C++ \<^verbatim>\<open>double\<close> is modelled by \<^typ>\<open>real\<close>:
  the development is about the control flow and the bookkeeping of the search, not about
  rounding. Positions in a tour (the non-negative \<^verbatim>\<open>int\<close>s \<open>i\<close>, \<open>j\<close>, \<open>n\<close>) are
  \<^typ>\<open>nat\<close>; the entries of a tour (\<^verbatim>\<open>std::vector<int>\<close>) are \<^typ>\<open>int\<close>.
\<close>

record City =
  index :: int
  x :: real
  y :: real

definition euclideanDistance :: "City \<Rightarrow> City \<Rightarrow> real" where
  "euclideanDistance a b =
     (let dx = x a - x b;
          dy = y a - y b
      in sqrt (dx * dx + dy * dy))"

text \<open>
  What C++ leaves undefined is an error value of the model: an index outside a vector,
  an iterator range outside its container, and a \<^verbatim>\<open>uniform_int_distribution(a, b)\<close>
  with \<open>b < a\<close>.
\<close>

datatype error = OutOfBounds | InvalidRange | InvalidDistribution

definition city_at :: "City list \<Rightarrow> int \<Rightarrow> error + City" where
  "city_at cities k =
     (if 0 \<le> k \<and> k < int (length cities) then Inr (cities ! nat k) else Inl OutOfBounds)"

text \<open>
  The \<^verbatim>\<open>for\<close> loop of \<^verbatim>\<open>totalDistance\<close>, from the index \<open>i\<close> with the sum so far
  in \<open>acc\<close> (the variable \<^verbatim>\<open>dist\<close> of the source).
\<close>

function totalDistance_from :: "int list \<Rightarrow> City list \<Rightarrow> nat \<Rightarrow> real \<Rightarrow> error + real" where
  "totalDistance_from tour cities i acc =
     (if i < length tour then
        (case city_at cities (tour ! i) of
           Inl e \<Rightarrow> Inl e
         | Inr a \<Rightarrow>
            (case city_at cities (tour ! ((i + 1) mod length tour)) of
               Inl e \<Rightarrow> Inl e
             | Inr b \<Rightarrow> totalDistance_from tour cities (i + 1) (acc + euclideanDistance a b)))
      else Inr acc)"
  by pat_completeness auto
termination
  by (relation "measure (\<lambda>(tour, cities, i, acc). length tour - i)") auto

declare totalDistance_from.simps [simp del]

definition totalDistance :: "int list \<Rightarrow> City list \<Rightarrow> error + real" where
  "totalDistance tour cities = totalDistance_from tour cities 0 0"

text \<open>
  The cost as the specification words it: the cyclic order of a tour gives one edge per
  position, from the position to its successor, the last position going back to the first.
\<close>

definition cyclic_edges :: "int list \<Rightarrow> (int \<times> int) list" where
  "cyclic_edges tour =
     map (\<lambda>i. (tour ! i, tour ! ((i + 1) mod length tour))) [0..<length tour]"

definition spec_totalCost :: "int list \<Rightarrow> City list \<Rightarrow> real" where
  "spec_totalCost tour cities =
     sum_list (map (\<lambda>(a, b). euclideanDistance (cities ! nat a) (cities ! nat b))
                   (cyclic_edges tour))"

definition valid_tour :: "int list \<Rightarrow> City list \<Rightarrow> bool" where
  "valid_tour tour cities = list_all (\<lambda>k. 0 \<le> k \<and> k < int (length cities)) tour"

text \<open>A permutation of \<open>[0, n)\<close>: no duplicates, no omissions.\<close>

definition is_permutation :: "nat \<Rightarrow> int list \<Rightarrow> bool" where
  "is_permutation n tour = (distinct tour \<and> set tour = set (map int [0..<n]))"

section \<open>The segment reversal\<close>

text \<open>
  \<^verbatim>\<open>std::reverse(v.begin() + b, v.begin() + e)\<close> reverses the elements of the half-open
  iterator range \<open>[b, e)\<close>; the range must lie inside the vector.
\<close>

definition std_reverse :: "nat \<Rightarrow> nat \<Rightarrow> 'a list \<Rightarrow> error + 'a list" where
  "std_reverse b e xs =
     (if b \<le> e \<and> e \<le> length xs
      then Inr (take b xs @ rev (take (e - b) (drop b xs)) @ drop e xs)
      else Inl InvalidRange)"

text \<open>
  The move as the specification words it: the inclusive range \<open>[i, j]\<close> is reversed.
\<close>

definition spec_reverse_inclusive :: "nat \<Rightarrow> nat \<Rightarrow> 'a list \<Rightarrow> 'a list" where
  "spec_reverse_inclusive i j xs =
     map (\<lambda>k. if i \<le> k \<and> k \<le> j then xs ! (i + j - k) else xs ! k) [0..<length xs]"

section \<open>The annealing engine\<close>

record sa_state =
  tour :: "int list"
  T :: real
  currentDistance :: real
  bestTour :: "int list"
  bestDistance :: real

definition initialTemperature :: real where
  "initialTemperature = 10000"

definition coolingRate :: real where
  "coolingRate = 0.9999"

definition absoluteTemperature :: real where
  "absoluteTemperature = 0.00001"

text \<open>The accepting branch of the loop body (lines 92 to 96).\<close>

definition accept_move :: "sa_state \<Rightarrow> int list \<Rightarrow> real \<Rightarrow> sa_state" where
  "accept_move s tour1 newDistance =
     (let s1 = s\<lparr>tour := tour1, currentDistance := newDistance\<rparr>
      in if currentDistance s1 < bestDistance s1
         then s1\<lparr>bestDistance := currentDistance s1, bestTour := tour s1\<rparr>
         else s1)"

definition cool :: "sa_state \<Rightarrow> sa_state" where
  "cool s = s\<lparr>T := T s * coolingRate\<rparr>"

text \<open>
  One pass through the body of the \<^verbatim>\<open>while\<close> loop. The random source is a generator
  state \<open>gen\<close> with the two distributions as functions on it: \<open>posDist\<close> (the
  \<^verbatim>\<open>dist\<close> of the source) draws a position and \<open>realDist\<close> a real, each returning the next generator state. The \<^verbatim>\<open>||\<close> of the
  acceptance test is short-circuit: \<open>realDist\<close> is drawn only when \<open>delta < 0\<close> fails.
  \<^verbatim>\<open>continue\<close> returns the state as it is, with the temperature not cooled.
\<close>

definition sa_body ::
  "('g \<Rightarrow> nat \<times> 'g) \<Rightarrow> ('g \<Rightarrow> real \<times> 'g) \<Rightarrow> City list \<Rightarrow> sa_state \<times> 'g \<Rightarrow> error + sa_state \<times> 'g" where
  "sa_body posDist realDist cities sg =
     (let (s, gen) = sg;
          (i0, gen1) = posDist gen;
          (j0, gen2) = posDist gen1
      in if i0 = j0 then Inr (s, gen2)
         else
           let (i, j) = (if i0 > j0 then (j0, i0) else (i0, j0))
           in case std_reverse i j (tour s) of
                Inl e \<Rightarrow> Inl e
              | Inr tour1 \<Rightarrow>
                 (case totalDistance tour1 cities of
                    Inl e \<Rightarrow> Inl e
                  | Inr newDistance \<Rightarrow>
                     let delta = newDistance - currentDistance s
                     in if delta < 0
                        then Inr (cool (accept_move s tour1 newDistance), gen2)
                        else
                          let (u, gen3) = realDist gen2
                          in if exp (- delta / T s) > u
                             then Inr (cool (accept_move s tour1 newDistance), gen3)
                             else (case std_reverse i j tour1 of
                                     Inl e \<Rightarrow> Inl e
                                   | Inr tour2 \<Rightarrow> Inr (cool (s\<lparr>tour := tour2\<rparr>), gen3))))"

text \<open>
  The \<^verbatim>\<open>while\<close> loop. It need not end, so it is a partial function: \<open>None\<close> is a run
  that never leaves the loop.
\<close>

partial_function (option) sa_loop ::
  "('g \<Rightarrow> nat \<times> 'g) \<Rightarrow> ('g \<Rightarrow> real \<times> 'g) \<Rightarrow> City list \<Rightarrow> sa_state \<times> 'g
     \<Rightarrow> (error + sa_state \<times> 'g) option" where
  "sa_loop posDist realDist cities sg =
     (if T (fst sg) > absoluteTemperature then
        (case sa_body posDist realDist cities sg of
           Inl e \<Rightarrow> Some (Inl e)
         | Inr sg' \<Rightarrow> sa_loop posDist realDist cities sg')
      else Some (Inr sg))"

text \<open>
  The state after at most \<open>k\<close> passes through the loop: the loop stopped at an iteration
  boundary.
\<close>

fun sa_iterate ::
  "('g \<Rightarrow> nat \<times> 'g) \<Rightarrow> ('g \<Rightarrow> real \<times> 'g) \<Rightarrow> City list \<Rightarrow> nat \<Rightarrow> sa_state \<times> 'g
     \<Rightarrow> error + sa_state \<times> 'g" where
  "sa_iterate posDist realDist cities 0 sg = Inr sg"
| "sa_iterate posDist realDist cities (Suc k) sg =
     (case sa_iterate posDist realDist cities k sg of
        Inl e \<Rightarrow> Inl e
      | Inr sg' \<Rightarrow>
         if T (fst sg') > absoluteTemperature then sa_body posDist realDist cities sg'
         else Inr sg')"

definition initial_state :: "int list \<Rightarrow> real \<Rightarrow> sa_state" where
  "initial_state tour0 d =
     \<lparr>tour = tour0, T = initialTemperature, currentDistance = d,
      bestTour = tour0, bestDistance = d\<rparr>"

text \<open>
  The engine. The distribution \<^verbatim>\<open>dist(0, n-1)\<close> is constructed first, which is undefined
  for an empty tour. The result is the tour the caller finds in its vector afterwards.
\<close>

definition simulatedAnnealing ::
  "('g \<Rightarrow> nat \<times> 'g) \<Rightarrow> ('g \<Rightarrow> real \<times> 'g) \<Rightarrow> int list \<Rightarrow> City list \<Rightarrow> 'g
     \<Rightarrow> (error + int list) option" where
  "simulatedAnnealing posDist realDist tour0 cities gen =
     (if length tour0 = 0 then Some (Inl InvalidDistribution)
      else
        (case totalDistance tour0 cities of
           Inl e \<Rightarrow> Some (Inl e)
         | Inr d \<Rightarrow>
            (case sa_loop posDist realDist cities (initial_state tour0 d, gen) of
               None \<Rightarrow> None
             | Some (Inl e) \<Rightarrow> Some (Inl e)
             | Some (Inr sg) \<Rightarrow> Some (Inr (bestTour (fst sg))))))"

text \<open>
  The invariant that ties the two cached costs to the two tours they belong to.
\<close>

definition cost_consistent :: "City list \<Rightarrow> sa_state \<Rightarrow> bool" where
  "cost_consistent cities s =
     (totalDistance (tour s) cities = Inr (currentDistance s)
      \<and> totalDistance (bestTour s) cities = Inr (bestDistance s))"

section \<open>Example data\<close>

text \<open>
  The four corners of the unit square, a search state on the tour that walks its
  perimeter, and a deterministic random source that replays a list of outcomes in a cycle.
\<close>

definition unit_square :: "City list" where
  "unit_square =
     [\<lparr>index = 1, x = 0, y = 0\<rparr>, \<lparr>index = 2, x = 0, y = 1\<rparr>,
      \<lparr>index = 3, x = 1, y = 1\<rparr>, \<lparr>index = 4, x = 1, y = 0\<rparr>]"

definition square_state :: "real \<Rightarrow> sa_state" where
  "square_state t =
     \<lparr>tour = [0, 1, 2, 3], T = t, currentDistance = 4,
      bestTour = [0, 1, 2, 3], bestDistance = 4\<rparr>"

definition replay :: "'a list \<Rightarrow> nat \<Rightarrow> 'a \<times> nat" where
  "replay ds g = (ds ! (g mod length ds), Suc g)"

section \<open>The segment reversal: what \<^verbatim>\<open>std::reverse\<close> does\<close>

text \<open>
  The call keeps the length and the elements of the vector, undoes itself when repeated,
  and moves exactly the positions \<open>b \<le> k < e\<close>; on a range of one element it changes
  nothing.
\<close>

lemma segment_split:
  assumes "b \<le> e"
  shows "take (e - b) (drop b xs) @ drop e xs = drop b xs"
proof -
  have "drop e xs = drop (e - b) (drop b xs)"
    using assms by simp
  then show ?thesis
    by (simp only: append_take_drop_id)
qed

lemma std_reverse_length:
  "std_reverse b e xs = Inr ys \<Longrightarrow> length ys = length xs"
  by (auto simp: std_reverse_def split: if_splits)

lemma std_reverse_mset:
  assumes "std_reverse b e xs = Inr ys"
  shows "mset ys = mset xs"
proof -
  from assms have be: "b \<le> e" and ys: "ys = take b xs @ rev (take (e - b) (drop b xs)) @ drop e xs"
    by (auto simp: std_reverse_def split: if_splits)
  have "mset ys = mset (take b xs) + mset (take (e - b) (drop b xs) @ drop e xs)"
    by (simp add: ys)
  also have "\<dots> = mset (take b xs) + mset (drop b xs)"
    by (simp only: segment_split [OF be])
  also have "\<dots> = mset xs"
    by (metis append_take_drop_id mset_append)
  finally show ?thesis .
qed

lemma std_reverse_twice:
  assumes "std_reverse b e xs = Inr ys"
  shows "std_reverse b e ys = Inr xs"
proof -
  from assms have be: "b \<le> e" and el: "e \<le> length xs"
    and ys: "ys = take b xs @ rev (take (e - b) (drop b xs)) @ drop e xs"
    by (auto simp: std_reverse_def split: if_splits)
  have len: "length ys = length xs"
    using assms by (rule std_reverse_length)
  have seg: "length (take (e - b) (drop b xs)) = e - b"
    using be el by simp
  have t: "take b ys = take b xs"
    using be el by (simp add: ys)
  have d: "drop b ys = rev (take (e - b) (drop b xs)) @ drop e xs"
    using be el by (simp add: ys)
  have m: "take (e - b) (drop b ys) = rev (take (e - b) (drop b xs))"
    using seg by (simp add: d)
  have "drop e ys = drop (e - b) (drop b ys)"
    using be by simp
  also have "\<dots> = drop e xs"
    using seg by (simp add: d)
  finally have r: "drop e ys = drop e xs" .
  have "take b ys @ rev (take (e - b) (drop b ys)) @ drop e ys
          = take b xs @ take (e - b) (drop b xs) @ drop e xs"
    by (simp add: t m r)
  also have "\<dots> = xs"
    by (simp only: segment_split [OF be] append_take_drop_id)
  finally show ?thesis
    using be el len by (simp add: std_reverse_def)
qed

lemma std_reverse_nth:
  assumes "std_reverse b e xs = Inr ys" and "k < length xs"
  shows "ys ! k = (if b \<le> k \<and> k < e then xs ! (b + e - 1 - k) else xs ! k)"
proof -
  from assms have be: "b \<le> e" and el: "e \<le> length xs"
    and ys: "ys = take b xs @ rev (take (e - b) (drop b xs)) @ drop e xs"
    by (auto simp: std_reverse_def split: if_splits)
  have seg: "length (take (e - b) (drop b xs)) = e - b"
    using be el by simp
  consider (before) "k < b" | (inside) "b \<le> k" "k < e" | (after) "e \<le> k"
    by linarith
  then show ?thesis
  proof cases
    case before
    then show ?thesis
      using be el by (simp add: ys nth_append)
  next
    case inside
    have "ys ! k = rev (take (e - b) (drop b xs)) ! (k - b)"
      using inside be el by (simp add: ys nth_append)
    also have "\<dots> = take (e - b) (drop b xs) ! (e - b - Suc (k - b))"
      using inside seg by (simp add: rev_nth)
    also have "\<dots> = xs ! (b + (e - b - Suc (k - b)))"
      using inside el by simp
    also have "b + (e - b - Suc (k - b)) = b + e - 1 - k"
      using inside by simp
    finally show ?thesis
      using inside by simp
  next
    case after
    have "\<not> k < b" and "\<not> k - b < e - b"
      using after be by linarith+
    then have "ys ! k = drop e xs ! (k - b - (e - b))"
      using be el seg by (simp add: ys nth_append)
    also have "\<dots> = xs ! k"
      using after be el assms(2) by simp
    finally show ?thesis
      using after by simp
  qed
qed

lemma std_reverse_adjacent:
  assumes "Suc i \<le> length xs"
  shows "std_reverse i (Suc i) xs = Inr xs"
proof -
  have "drop i xs = xs ! i # drop (Suc i) xs"
    using assms by (simp add: Cons_nth_drop_Suc)
  then have "take i xs @ rev (take (Suc i - i) (drop i xs)) @ drop (Suc i) xs = take i xs @ drop i xs"
    by simp
  then show ?thesis
    using assms by (simp add: std_reverse_def)
qed

section \<open>The cost model\<close>

text \<open>
  On a tour whose entries index the city collection the loop of \<^verbatim>\<open>totalDistance\<close> reads
  no city out of range and adds one edge per position.
\<close>

lemma city_at_valid:
  assumes "valid_tour tr cities" and "k < length tr"
  shows "city_at cities (tr ! k) = Inr (cities ! nat (tr ! k))"
  using assms by (simp add: valid_tour_def city_at_def list_all_length)

lemma totalDistance_from_valid:
  assumes "valid_tour tr cities"
  shows "totalDistance_from tr cities i acc =
           Inr (acc + sum_list (map (\<lambda>k. euclideanDistance (cities ! nat (tr ! k))
                                            (cities ! nat (tr ! ((k + 1) mod length tr))))
                                    [i..<length tr]))"
  using assms
proof (induction tr cities i acc rule: totalDistance_from.induct)
  case (1 tr cities i acc)
  show ?case
  proof (cases "i < length tr")
    case True
    then have "0 < length tr"
      by linarith
    then have nxt: "(i + 1) mod length tr < length tr"
      by (rule mod_less_divisor)
    have a: "city_at cities (tr ! i) = Inr (cities ! nat (tr ! i))"
      using "1.prems" True by (rule city_at_valid)
    have b: "city_at cities (tr ! ((i + 1) mod length tr))
               = Inr (cities ! nat (tr ! ((i + 1) mod length tr)))"
      using "1.prems" nxt by (rule city_at_valid)
    have ih: "totalDistance_from tr cities (i + 1)
                (acc + euclideanDistance (cities ! nat (tr ! i))
                         (cities ! nat (tr ! ((i + 1) mod length tr))))
              = Inr (acc + euclideanDistance (cities ! nat (tr ! i))
                         (cities ! nat (tr ! ((i + 1) mod length tr)))
                     + sum_list (map (\<lambda>k. euclideanDistance (cities ! nat (tr ! k))
                                            (cities ! nat (tr ! ((k + 1) mod length tr))))
                                    [i + 1..<length tr]))"
      using "1.IH" [OF True a b "1.prems"] .
    have "[i..<length tr] = i # [i + 1..<length tr]"
      using True by (simp add: upt_conv_Cons)
    then show ?thesis
      using True a b ih
      by (subst totalDistance_from.simps) (simp add: add.assoc)
  next
    case False
    then show ?thesis
      by (subst totalDistance_from.simps) simp
  qed
qed

lemma totalDistance_spec:
  assumes "valid_tour tr cities"
  shows "totalDistance tr cities = Inr (spec_totalCost tr cities)"
  using totalDistance_from_valid [OF assms, of 0 0]
  by (simp add: totalDistance_def spec_totalCost_def cyclic_edges_def comp_def)

lemma euclideanDistance_self: "euclideanDistance a a = 0"
  by (simp add: euclideanDistance_def)

lemma spec_totalCost_small:
  assumes "length tr \<le> 1"
  shows "spec_totalCost tr cities = 0"
proof (cases tr)
  case Nil
  then show ?thesis
    by (simp add: spec_totalCost_def cyclic_edges_def)
next
  case (Cons a as)
  with assms have "tr = [a]"
    by simp
  then show ?thesis
    by (simp add: spec_totalCost_def cyclic_edges_def euclideanDistance_self)
qed

lemma is_permutation_valid:
  assumes "is_permutation n tr" and "n \<le> length cities"
  shows "valid_tour tr cities"
  using assms by (auto simp: is_permutation_def valid_tour_def list_all_iff)

lemma std_reverse_is_permutation:
  assumes "std_reverse b e xs = Inr ys"
  shows "is_permutation n ys = is_permutation n xs"
proof -
  have m: "mset ys = mset xs"
    using assms by (rule std_reverse_mset)
  have "distinct ys = distinct xs"
    using m by (rule mset_eq_imp_distinct_iff)
  moreover have "set ys = set xs"
    using m by (rule mset_eq_setD)
  ultimately show ?thesis
    by (simp add: is_permutation_def)
qed

section \<open>One pass through the loop body\<close>

text \<open>
  A pass either skips (equal draws), or evaluates the candidate and then accepts it or
  restores the tour; \<open>sa_body_move\<close> is the body with its draws and intermediate results
  named, \<open>sa_body_cases\<close> the three outcomes of a pass that does not fail.
\<close>

lemma ordered_pair:
  "(if (j0::nat) < i0 then (j0, i0) else (i0, j0)) = (min i0 j0, max i0 j0)"
  by (simp add: min_def max_def)

lemma sa_body_skip:
  assumes "posDist gen = (i0, gen1)" and "posDist gen1 = (i0, gen2)"
  shows "sa_body posDist realDist cities (s, gen) = Inr (s, gen2)"
  using assms by (simp add: sa_body_def)

lemma sa_body_move:
  assumes "posDist gen = (i0, gen1)" and "posDist gen1 = (j0, gen2)" and "i0 \<noteq> j0"
    and "std_reverse (min i0 j0) (max i0 j0) (tour s) = Inr tour1"
    and "totalDistance tour1 cities = Inr newDistance"
    and "realDist gen2 = (u, gen3)"
  shows "sa_body posDist realDist cities (s, gen) =
           (if newDistance - currentDistance s < 0
            then Inr (cool (accept_move s tour1 newDistance), gen2)
            else if exp (- (newDistance - currentDistance s) / T s) > u
            then Inr (cool (accept_move s tour1 newDistance), gen3)
            else Inr (cool s, gen3))"
proof -
  have undo: "std_reverse (min i0 j0) (max i0 j0) tour1 = Inr (tour s)"
    using assms(4) by (rule std_reverse_twice)
  show ?thesis
    using assms undo by (simp add: sa_body_def ordered_pair)
qed

lemma sa_body_cases:
  assumes "sa_body posDist realDist cities (s, gen) = Inr (s', gen')"
  obtains (skip) "s' = s"
  | (accept) b e tour1 newDistance where
      "std_reverse b e (tour s) = Inr tour1"
      "totalDistance tour1 cities = Inr newDistance"
      "s' = cool (accept_move s tour1 newDistance)"
  | (reject) "s' = cool s"
proof -
  obtain i0 gen1 where d1: "posDist gen = (i0, gen1)"
    by (cases "posDist gen")
  obtain j0 gen2 where d2: "posDist gen1 = (j0, gen2)"
    by (cases "posDist gen1")
  obtain u gen3 where d3: "realDist gen2 = (u, gen3)"
    by (cases "realDist gen2")
  show thesis
  proof (cases "i0 = j0")
    case True
    then have "s' = s"
      using assms sa_body_skip [of posDist gen i0 gen1 gen2 realDist cities s] d1 d2 by simp
    then show thesis
      by (rule skip)
  next
    case False
    obtain tour1 where r: "std_reverse (min i0 j0) (max i0 j0) (tour s) = Inr tour1"
      using assms d1 d2 False
      by (cases "std_reverse (min i0 j0) (max i0 j0) (tour s)")
         (simp_all add: sa_body_def ordered_pair)
    obtain newDistance where c: "totalDistance tour1 cities = Inr newDistance"
      using assms d1 d2 False r
      by (cases "totalDistance tour1 cities") (simp_all add: sa_body_def ordered_pair)
    have "s' = cool (accept_move s tour1 newDistance) \<or> s' = cool s"
      using assms
        sa_body_move [where posDist = posDist and realDist = realDist and gen = gen
                        and ?gen1.0 = gen1 and ?gen2.0 = gen2, OF d1 d2 False r c d3]
      by (auto split: if_splits)
    then show thesis
      using r c accept reject by blast
  qed
qed

lemma T_cool [simp]: "T (cool s) = T s * coolingRate"
  by (simp add: cool_def)

lemma tour_cool [simp]: "tour (cool s) = tour s"
  by (simp add: cool_def)

lemma currentDistance_cool [simp]: "currentDistance (cool s) = currentDistance s"
  by (simp add: cool_def)

lemma bestTour_cool [simp]: "bestTour (cool s) = bestTour s"
  by (simp add: cool_def)

lemma bestDistance_cool [simp]: "bestDistance (cool s) = bestDistance s"
  by (simp add: cool_def)

lemma tour_accept_move [simp]: "tour (accept_move s tour1 d) = tour1"
  by (simp add: accept_move_def Let_def)

lemma currentDistance_accept_move [simp]: "currentDistance (accept_move s tour1 d) = d"
  by (simp add: accept_move_def Let_def)

lemma T_accept_move [simp]: "T (accept_move s tour1 d) = T s"
  by (simp add: accept_move_def Let_def)

lemma bestDistance_accept_move:
  "bestDistance (accept_move s tour1 d) = (if d < bestDistance s then d else bestDistance s)"
  by (simp add: accept_move_def Let_def)

lemma bestTour_accept_move:
  "bestTour (accept_move s tour1 d) = (if d < bestDistance s then tour1 else bestTour s)"
  by (simp add: accept_move_def Let_def)

lemma sa_body_perm:
  assumes "sa_body posDist realDist cities (s, gen) = Inr (s', gen')"
  shows "is_permutation n (tour s') = is_permutation n (tour s)"
  using assms
proof (cases rule: sa_body_cases)
  case skip
  then show ?thesis by simp
next
  case (accept b e tour1 newDistance)
  then show ?thesis
    by (simp add: std_reverse_is_permutation)
next
  case reject
  then show ?thesis by simp
qed

lemma sa_body_consistent:
  assumes "sa_body posDist realDist cities (s, gen) = Inr (s', gen')"
    and "cost_consistent cities s"
  shows "cost_consistent cities s'"
  using assms(1)
proof (cases rule: sa_body_cases)
  case skip
  then show ?thesis using assms(2) by simp
next
  case (accept b e tour1 newDistance)
  then show ?thesis
    using assms(2)
    by (simp add: cost_consistent_def bestDistance_accept_move bestTour_accept_move)
next
  case reject
  then show ?thesis using assms(2) by (simp add: cost_consistent_def)
qed

lemma sa_body_best:
  assumes "sa_body posDist realDist cities (s, gen) = Inr (s', gen')"
    and "bestDistance s \<le> currentDistance s"
  shows "bestDistance s' \<le> bestDistance s
         \<and> bestDistance s' \<le> currentDistance s'
         \<and> ((bestDistance s' = bestDistance s \<and> bestTour s' = bestTour s)
              \<or> (bestDistance s' = currentDistance s' \<and> bestTour s' = tour s'))"
  using assms(1)
proof (cases rule: sa_body_cases)
  case skip
  then show ?thesis using assms(2) by simp
next
  case (accept b e tour1 newDistance)
  then show ?thesis
    using assms(2) by (simp add: bestDistance_accept_move bestTour_accept_move)
next
  case reject
  then show ?thesis using assms(2) by simp
qed

section \<open>Passes through the loop\<close>

text \<open>
  Properties of the state after \<open>k\<close> passes, by induction on \<open>k\<close>: what a pass preserves
  holds at every iteration boundary.
\<close>

lemma is_permutation_length:
  assumes "is_permutation n tr"
  shows "length tr = n"
proof -
  have "distinct (map int [0..<n])"
    by (simp add: distinct_map)
  then have range: "card (set (map int [0..<n])) = length (map int [0..<n])"
    by (rule distinct_card)
  have d: "distinct tr" and same: "set tr = set (map int [0..<n])"
    using assms by (simp_all only: is_permutation_def)
  have "length tr = card (set tr)"
    using d by (rule distinct_card [symmetric])
  also have "\<dots> = length (map int [0..<n])"
    by (simp only: same range)
  finally show ?thesis
    by simp
qed

lemma sa_body_cools:
  assumes "sa_body posDist realDist cities (s, gen) = Inr (s', gen')"
    and "fst (posDist gen) \<noteq> fst (posDist (snd (posDist gen)))"
  shows "T s' = T s * coolingRate"
proof -
  obtain i0 gen1 where d1: "posDist gen = (i0, gen1)"
    by (cases "posDist gen")
  obtain j0 gen2 where d2: "posDist gen1 = (j0, gen2)"
    by (cases "posDist gen1")
  obtain u gen3 where d3: "realDist gen2 = (u, gen3)"
    by (cases "realDist gen2")
  have ne: "i0 \<noteq> j0"
    using assms(2) d1 d2 by simp
  obtain tour1 where r: "std_reverse (min i0 j0) (max i0 j0) (tour s) = Inr tour1"
    using assms(1) d1 d2 ne
    by (cases "std_reverse (min i0 j0) (max i0 j0) (tour s)")
       (simp_all add: sa_body_def ordered_pair)
  obtain newDistance where c: "totalDistance tour1 cities = Inr newDistance"
    using assms(1) d1 d2 ne r
    by (cases "totalDistance tour1 cities") (simp_all add: sa_body_def ordered_pair)
  show ?thesis
    using assms(1)
      sa_body_move [where posDist = posDist and realDist = realDist and gen = gen
                      and ?gen1.0 = gen1 and ?gen2.0 = gen2, OF d1 d2 ne r c d3]
    by (auto split: if_splits)
qed

lemma sa_body_total:
  assumes "is_permutation n (tour s)" and "n \<le> length cities"
    and "fst (posDist gen) < n" and "fst (posDist (snd (posDist gen))) < n"
  shows "\<exists>s' gen'. sa_body posDist realDist cities (s, gen) = Inr (s', gen')"
proof -
  obtain i0 gen1 where d1: "posDist gen = (i0, gen1)"
    by (cases "posDist gen")
  obtain j0 gen2 where d2: "posDist gen1 = (j0, gen2)"
    by (cases "posDist gen1")
  obtain u gen3 where d3: "realDist gen2 = (u, gen3)"
    by (cases "realDist gen2")
  show ?thesis
  proof (cases "i0 = j0")
    case True
    then show ?thesis
      using sa_body_skip [of posDist gen i0 gen1 gen2 realDist cities s] d1 d2 by simp
  next
    case False
    have len: "length (tour s) = n"
      using assms(1) by (rule is_permutation_length)
    have "max i0 j0 \<le> length (tour s)"
      using assms(3,4) d1 d2 len by simp
    moreover have "min i0 j0 \<le> max i0 j0"
      by (simp add: min_def max_def)
    ultimately obtain tour1 where r: "std_reverse (min i0 j0) (max i0 j0) (tour s) = Inr tour1"
      by (simp add: std_reverse_def)
    have "is_permutation n tour1"
      using assms(1) std_reverse_is_permutation [OF r] by simp
    then have "valid_tour tour1 cities"
      using assms(2) by (rule is_permutation_valid)
    then have c: "totalDistance tour1 cities = Inr (spec_totalCost tour1 cities)"
      by (rule totalDistance_spec)
    show ?thesis
      using sa_body_move [where posDist = posDist and realDist = realDist and gen = gen
                            and ?gen1.0 = gen1 and ?gen2.0 = gen2, OF d1 d2 False r c d3]
      by (auto split: if_splits)
  qed
qed

lemma sa_iterate_step:
  assumes "sa_iterate posDist realDist cities (Suc k) sg = Inr sg''"
  obtains sg' where "sa_iterate posDist realDist cities k sg = Inr sg'"
    and "(\<not> absoluteTemperature < T (fst sg') \<and> sg'' = sg')
         \<or> (absoluteTemperature < T (fst sg') \<and> sa_body posDist realDist cities sg' = Inr sg'')"
  using assms by (auto split: sum.splits if_splits)

lemma sa_iterate_invariant:
  assumes step: "\<And>s g s' g'. P s \<Longrightarrow> sa_body posDist realDist cities (s, g) = Inr (s', g') \<Longrightarrow> P s'"
    and "P (fst sg)"
    and "sa_iterate posDist realDist cities k sg = Inr sg'"
  shows "P (fst sg')"
  using assms(3)
proof (induction k arbitrary: sg')
  case 0
  then show ?case using assms(2) by simp
next
  case (Suc k)
  from Suc.prems obtain sg1 where
    k: "sa_iterate posDist realDist cities k sg = Inr sg1"
    and alt: "(\<not> absoluteTemperature < T (fst sg1) \<and> sg' = sg1)
         \<or> (absoluteTemperature < T (fst sg1) \<and> sa_body posDist realDist cities sg1 = Inr sg')"
    by (rule sa_iterate_step)
  have p1: "P (fst sg1)"
    using k by (rule Suc.IH)
  from alt show ?case
  proof
    assume "\<not> absoluteTemperature < T (fst sg1) \<and> sg' = sg1"
    then show ?thesis using p1 by simp
  next
    assume "absoluteTemperature < T (fst sg1) \<and> sa_body posDist realDist cities sg1 = Inr sg'"
    then have "sa_body posDist realDist cities (fst sg1, snd sg1) = Inr (fst sg', snd sg')"
      by simp
    with p1 show ?thesis
      by (rule step)
  qed
qed

lemma sa_iterate_shift:
  "sa_iterate posDist realDist cities (Suc k) sg =
     (if T (fst sg) > absoluteTemperature then
        (case sa_body posDist realDist cities sg of
           Inl e \<Rightarrow> Inl e
         | Inr sg1 \<Rightarrow> sa_iterate posDist realDist cities k sg1)
      else Inr sg)"
proof (induction k)
  case 0
  show ?case
    by (simp split: sum.splits)
next
  case (Suc k)
  have "sa_iterate posDist realDist cities (Suc (Suc k)) sg =
          (case sa_iterate posDist realDist cities (Suc k) sg of
             Inl e \<Rightarrow> Inl e
           | Inr sg' \<Rightarrow>
               if T (fst sg') > absoluteTemperature then sa_body posDist realDist cities sg'
               else Inr sg')"
    by simp
  also have "\<dots> =
     (if T (fst sg) > absoluteTemperature then
        (case sa_body posDist realDist cities sg of
           Inl e \<Rightarrow> Inl e
         | Inr sg1 \<Rightarrow> sa_iterate posDist realDist cities (Suc k) sg1)
      else Inr sg)"
    by (simp only: Suc.IH) (simp split: sum.splits)
  finally show ?case .
qed

lemma sa_iterate_consistent:
  assumes "cost_consistent cities (fst sg)"
    and "sa_iterate posDist realDist cities k sg = Inr sg'"
  shows "cost_consistent cities (fst sg')"
proof (rule sa_iterate_invariant [where P = "cost_consistent cities"])
  show "cost_consistent cities (fst sg)"
    by (rule assms(1))
  show "sa_iterate posDist realDist cities k sg = Inr sg'"
    by (rule assms(2))
  show "cost_consistent cities s'"
    if "cost_consistent cities s" and "sa_body posDist realDist cities (s, g) = Inr (s', g')"
    for s g s' g'
    using that(2,1) by (rule sa_body_consistent)
qed

lemma sa_iterate_best_le_current:
  assumes "bestDistance (fst sg) \<le> currentDistance (fst sg)"
    and "sa_iterate posDist realDist cities k sg = Inr sg'"
  shows "bestDistance (fst sg') \<le> currentDistance (fst sg')"
proof (rule sa_iterate_invariant [where P = "\<lambda>s. bestDistance s \<le> currentDistance s"])
  show "bestDistance (fst sg) \<le> currentDistance (fst sg)"
    by (rule assms(1))
  show "sa_iterate posDist realDist cities k sg = Inr sg'"
    by (rule assms(2))
  show "bestDistance s' \<le> currentDistance s'"
    if "bestDistance s \<le> currentDistance s"
      and "sa_body posDist realDist cities (s, g) = Inr (s', g')"
    for s g s' g'
    using sa_body_best [OF that(2,1)] by simp
qed

lemma sa_iterate_total:
  assumes "is_permutation n (tour s)" and "n \<le> length cities"
    and "\<forall>g. fst (posDist g) < n"
  shows "\<exists>s' gen'. sa_iterate posDist realDist cities k (s, gen) = Inr (s', gen')
           \<and> is_permutation n (tour s')"
proof (induction k)
  case 0
  show ?case
    using assms(1) by simp
next
  case (Suc k)
  then obtain s1 gen1 where
    k: "sa_iterate posDist realDist cities k (s, gen) = Inr (s1, gen1)"
    and p: "is_permutation n (tour s1)"
    by blast
  show ?case
  proof (cases "absoluteTemperature < T s1")
    case True
    have "fst (posDist gen1) < n" and "fst (posDist (snd (posDist gen1))) < n"
      using assms(3) by simp_all
    with p assms(2) obtain s' gen' where
      b: "sa_body posDist realDist cities (s1, gen1) = Inr (s', gen')"
      using sa_body_total [of n s1 cities posDist gen1 realDist] by blast
    have "is_permutation n (tour s')"
      using p sa_body_perm [OF b, of n] by simp
    then show ?thesis
      using k True b by simp
  next
    case False
    then show ?thesis
      using k p by simp
  qed
qed

lemma sa_iterate_best:
  assumes cur: "totalDistance (tour s0) cities = Inr (currentDistance s0)"
    and bt: "bestTour s0 = tour s0"
    and bd: "bestDistance s0 = currentDistance s0"
    and run: "sa_iterate posDist realDist cities k (s0, gen0) = Inr (sk, gk)"
  shows "(\<forall>m\<le>k. \<exists>sm gm. sa_iterate posDist realDist cities m (s0, gen0) = Inr (sm, gm)
                    \<and> bestDistance sk \<le> bestDistance sm
                    \<and> totalDistance (tour sm) cities = Inr (currentDistance sm)
                    \<and> bestDistance sk \<le> currentDistance sm)
         \<and> (\<exists>m\<le>k. \<exists>sm gm. sa_iterate posDist realDist cities m (s0, gen0) = Inr (sm, gm)
                    \<and> bestTour sk = tour sm
                    \<and> totalDistance (tour sm) cities = Inr (bestDistance sk))"
  using run
proof (induction k arbitrary: sk gk)
  case 0
  then have "sk = s0" and "gk = gen0"
    by simp_all
  then show ?case
    using cur bt bd by simp
next
  case (Suc k)
  let ?it = "sa_iterate posDist realDist cities"
  from Suc.prems obtain sg1 where
    k: "?it k (s0, gen0) = Inr sg1"
    and alt: "(\<not> absoluteTemperature < T (fst sg1) \<and> (sk, gk) = sg1)
         \<or> (absoluteTemperature < T (fst sg1) \<and> sa_body posDist realDist cities sg1 = Inr (sk, gk))"
    by (rule sa_iterate_step)
  obtain s1 g1 where sg1: "sg1 = (s1, g1)"
    by (cases sg1)
  have k1: "?it k (s0, gen0) = Inr (s1, g1)"
    using k sg1 by simp
  have cc0: "cost_consistent cities (fst (s0, gen0))"
    using cur bt bd by (simp add: cost_consistent_def)
  have b0: "bestDistance (fst (s0, gen0)) \<le> currentDistance (fst (s0, gen0))"
    using bd by simp
  have inv1: "bestDistance s1 \<le> currentDistance s1"
    using sa_iterate_best_le_current [OF b0 k1] by simp
  have cck: "totalDistance (tour sk) cities = Inr (currentDistance sk)"
    using sa_iterate_consistent [OF cc0 Suc.prems] by (simp add: cost_consistent_def)
  have step: "bestDistance sk \<le> bestDistance s1 \<and> bestDistance sk \<le> currentDistance sk
              \<and> ((bestDistance sk = bestDistance s1 \<and> bestTour sk = bestTour s1)
                   \<or> (bestDistance sk = currentDistance sk \<and> bestTour sk = tour sk))"
    using alt
  proof
    assume "\<not> absoluteTemperature < T (fst sg1) \<and> (sk, gk) = sg1"
    then show ?thesis
      using sg1 inv1 by simp
  next
    assume "absoluteTemperature < T (fst sg1) \<and> sa_body posDist realDist cities sg1 = Inr (sk, gk)"
    then have "sa_body posDist realDist cities (s1, g1) = Inr (sk, gk)"
      using sg1 by simp
    then show ?thesis
      using inv1 by (rule sa_body_best)
  qed
  have ih_all: "\<forall>m\<le>k. \<exists>sm gm. ?it m (s0, gen0) = Inr (sm, gm)
                    \<and> bestDistance s1 \<le> bestDistance sm
                    \<and> totalDistance (tour sm) cities = Inr (currentDistance sm)
                    \<and> bestDistance s1 \<le> currentDistance sm"
    and ih_ex: "\<exists>m\<le>k. \<exists>sm gm. ?it m (s0, gen0) = Inr (sm, gm)
                    \<and> bestTour s1 = tour sm
                    \<and> totalDistance (tour sm) cities = Inr (bestDistance s1)"
    using Suc.IH [OF k1] by simp_all
  have all: "\<exists>sm gm. ?it m (s0, gen0) = Inr (sm, gm)
                    \<and> bestDistance sk \<le> bestDistance sm
                    \<and> totalDistance (tour sm) cities = Inr (currentDistance sm)
                    \<and> bestDistance sk \<le> currentDistance sm"
    if "m \<le> Suc k" for m
  proof (cases "m \<le> k")
    case True
    then obtain sm gm where "?it m (s0, gen0) = Inr (sm, gm)"
      and "bestDistance s1 \<le> bestDistance sm"
      and "totalDistance (tour sm) cities = Inr (currentDistance sm)"
      and "bestDistance s1 \<le> currentDistance sm"
      using ih_all by blast
    then show ?thesis
      using step by (intro exI [of _ sm] exI [of _ gm]) simp
  next
    case False
    then have "m = Suc k"
      using that by simp
    then show ?thesis
      using Suc.prems cck step by (intro exI [of _ sk] exI [of _ gk]) simp
  qed
  have ex: "\<exists>m\<le>Suc k. \<exists>sm gm. ?it m (s0, gen0) = Inr (sm, gm)
                    \<and> bestTour sk = tour sm
                    \<and> totalDistance (tour sm) cities = Inr (bestDistance sk)"
  proof (cases "bestDistance sk = bestDistance s1 \<and> bestTour sk = bestTour s1")
    case True
    from ih_ex obtain m sm gm where "m \<le> k" and "?it m (s0, gen0) = Inr (sm, gm)"
      and "bestTour s1 = tour sm" and "totalDistance (tour sm) cities = Inr (bestDistance s1)"
      by blast
    then have "m \<le> Suc k \<and> ?it m (s0, gen0) = Inr (sm, gm)
                    \<and> bestTour sk = tour sm
                    \<and> totalDistance (tour sm) cities = Inr (bestDistance sk)"
      using True by simp
    then show ?thesis
      by blast
  next
    case False
    then have "bestDistance sk = currentDistance sk \<and> bestTour sk = tour sk"
      using step by blast
    then have "Suc k \<le> Suc k \<and> ?it (Suc k) (s0, gen0) = Inr (sk, gk)
                    \<and> bestTour sk = tour sk
                    \<and> totalDistance (tour sk) cities = Inr (bestDistance sk)"
      using Suc.prems cck by simp
    then show ?thesis
      by blast
  qed
  show ?case
    using all ex by blast
qed

section \<open>The loop and the engine\<close>

text \<open>
  The loop returns exactly the states that some number of passes reaches with the
  temperature at most the floor. With equal draws throughout it never returns; with
  draws that always differ the temperature decays geometrically and it does.
\<close>

lemma sa_loop_exit:
  assumes "\<not> absoluteTemperature < T (fst sg)"
  shows "sa_loop posDist realDist cities sg = Some (Inr sg)"
  using assms by (subst sa_loop.simps) simp

lemma sa_loop_fail:
  assumes "absoluteTemperature < T (fst sg)" and "sa_body posDist realDist cities sg = Inl e"
  shows "sa_loop posDist realDist cities sg = Some (Inl e)"
  using assms by (subst sa_loop.simps) simp

lemma sa_loop_pass:
  assumes "absoluteTemperature < T (fst sg)" and "sa_body posDist realDist cities sg = Inr sg1"
  shows "sa_loop posDist realDist cities sg = sa_loop posDist realDist cities sg1"
  using assms by (subst sa_loop.simps) simp

lemma sa_loop_Some:
  assumes "sa_loop posDist realDist cities sg = Some r"
  shows "\<exists>k. sa_iterate posDist realDist cities k sg = r
              \<and> (\<forall>sg'. r = Inr sg' \<longrightarrow> \<not> absoluteTemperature < T (fst sg'))"
proof (rule sa_loop.raw_induct
    [where P = "\<lambda>posDist realDist cities sg r.
        \<exists>k. sa_iterate posDist realDist cities k sg = r
              \<and> (\<forall>sg'. r = Inr sg' \<longrightarrow> \<not> absoluteTemperature < T (fst sg'))",
     OF _ assms])
  fix loop :: "('a \<Rightarrow> nat \<times> 'a) \<Rightarrow> ('a \<Rightarrow> real \<times> 'a) \<Rightarrow> City list \<Rightarrow> sa_state \<times> 'a
                 \<Rightarrow> (error + sa_state \<times> 'a) option"
    and posDist realDist cities sg r
  assume IH: "\<And>posDist realDist cities sg r. loop posDist realDist cities sg = Some r \<Longrightarrow>
        \<exists>k. sa_iterate posDist realDist cities k sg = r
              \<and> (\<forall>sg'. r = Inr sg' \<longrightarrow> \<not> absoluteTemperature < T (fst sg'))"
    and unfolded: "(if absoluteTemperature < T (fst sg)
              then case sa_body posDist realDist cities sg of
                     Inl e \<Rightarrow> Some (Inl e)
                   | Inr sg' \<Rightarrow> loop posDist realDist cities sg'
              else Some (Inr sg)) = Some r"
  show "\<exists>k. sa_iterate posDist realDist cities k sg = r
              \<and> (\<forall>sg'. r = Inr sg' \<longrightarrow> \<not> absoluteTemperature < T (fst sg'))"
  proof (cases "absoluteTemperature < T (fst sg)")
    case False
    then have "r = Inr sg"
      using unfolded by simp
    then have "sa_iterate posDist realDist cities 0 sg = r
               \<and> (\<forall>sg'. r = Inr sg' \<longrightarrow> \<not> absoluteTemperature < T (fst sg'))"
      using False by simp
    then show ?thesis
      by (rule exI)
  next
    case True
    show ?thesis
    proof (cases "sa_body posDist realDist cities sg")
      case (Inl e)
      then have "r = Inl e"
        using unfolded True by simp
      then have "sa_iterate posDist realDist cities (Suc 0) sg = r
               \<and> (\<forall>sg'. r = Inr sg' \<longrightarrow> \<not> absoluteTemperature < T (fst sg'))"
        using True Inl by simp
      then show ?thesis
        by (rule exI)
    next
      case (Inr sg1)
      then have "loop posDist realDist cities sg1 = Some r"
        using unfolded True by simp
      then have "\<exists>k. sa_iterate posDist realDist cities k sg1 = r
              \<and> (\<forall>sg'. r = Inr sg' \<longrightarrow> \<not> absoluteTemperature < T (fst sg'))"
        by (rule IH)
      then obtain k where "sa_iterate posDist realDist cities k sg1 = r"
        and ex: "\<forall>sg'. r = Inr sg' \<longrightarrow> \<not> absoluteTemperature < T (fst sg')"
        by blast
      then have "sa_iterate posDist realDist cities (Suc k) sg = r"
        using True Inr by (simp only: sa_iterate_shift) simp
      then show ?thesis
        using ex by blast
    qed
  qed
qed

lemma sa_iterate_loop:
  assumes "sa_iterate posDist realDist cities k sg = Inr sg'"
    and "\<not> absoluteTemperature < T (fst sg')"
  shows "sa_loop posDist realDist cities sg = Some (Inr sg')"
  using assms
proof (induction k arbitrary: sg)
  case 0
  then show ?case
    by (simp add: sa_loop_exit)
next
  case (Suc k)
  show ?case
  proof (cases "absoluteTemperature < T (fst sg)")
    case False
    then have "sg' = sg"
      using Suc.prems(1) by (simp only: sa_iterate_shift) simp
    then show ?thesis
      using False by (simp add: sa_loop_exit)
  next
    case True
    then obtain sg1 where b: "sa_body posDist realDist cities sg = Inr sg1"
      and k: "sa_iterate posDist realDist cities k sg1 = Inr sg'"
      using Suc.prems(1) by (simp only: sa_iterate_shift) (simp split: sum.splits)
    have "sa_loop posDist realDist cities sg1 = Some (Inr sg')"
      using k Suc.prems(2) by (rule Suc.IH)
    then show ?thesis
      using sa_loop_pass [OF True b] by simp
  qed
qed

lemma sa_loop_degenerate:
  assumes "sa_loop posDist realDist cities sg = Some r"
  shows "(\<forall>g. fst (posDist g) = c) \<longrightarrow> \<not> absoluteTemperature < T (fst sg)"
proof (rule sa_loop.raw_induct
    [where P = "\<lambda>posDist realDist cities sg r.
        (\<forall>g. fst (posDist g) = c) \<longrightarrow> \<not> absoluteTemperature < T (fst sg)",
     OF _ assms])
  fix loop :: "('a \<Rightarrow> nat \<times> 'a) \<Rightarrow> ('a \<Rightarrow> real \<times> 'a) \<Rightarrow> City list \<Rightarrow> sa_state \<times> 'a
                 \<Rightarrow> (error + sa_state \<times> 'a) option"
    and posDist realDist cities sg r
  assume IH: "\<And>posDist realDist cities sg r. loop posDist realDist cities sg = Some r \<Longrightarrow>
        (\<forall>g. fst (posDist g) = c) \<longrightarrow> \<not> absoluteTemperature < T (fst sg)"
    and unfolded: "(if absoluteTemperature < T (fst sg)
              then case sa_body posDist realDist cities sg of
                     Inl e \<Rightarrow> Some (Inl e)
                   | Inr sg' \<Rightarrow> loop posDist realDist cities sg'
              else Some (Inr sg)) = Some r"
  show "(\<forall>g. fst (posDist g) = c) \<longrightarrow> \<not> absoluteTemperature < T (fst sg)"
  proof (intro impI notI)
    assume const: "\<forall>g. fst (posDist g) = c" and hot: "absoluteTemperature < T (fst sg)"
    obtain s gen where sg: "sg = (s, gen)"
      by (cases sg)
    obtain i0 gen1 where d1: "posDist gen = (i0, gen1)"
      by (cases "posDist gen")
    obtain j0 gen2 where d2: "posDist gen1 = (j0, gen2)"
      by (cases "posDist gen1")
    have "i0 = c" and "j0 = c"
      using const d1 d2 by (metis fst_conv)+
    then have "sa_body posDist realDist cities sg = Inr (s, gen2)"
      using sa_body_skip [of posDist gen c gen1 gen2 realDist cities s] d1 d2 sg by simp
    then have "loop posDist realDist cities (s, gen2) = Some r"
      using unfolded hot by simp
    then have "(\<forall>g. fst (posDist g) = c) \<longrightarrow> \<not> absoluteTemperature < T (fst (s, gen2))"
      by (rule IH)
    then have "\<not> absoluteTemperature < T (fst (s, gen2))"
      using const by simp
    then show False
      using hot sg by simp
  qed
qed

lemma sa_loop_never_returns:
  assumes "\<forall>g. fst (posDist g) = c" and "absoluteTemperature < T (fst sg)"
  shows "sa_loop posDist realDist cities sg = None"
proof (cases "sa_loop posDist realDist cities sg")
  case None
  then show ?thesis .
next
  case (Some r)
  then have "\<not> absoluteTemperature < T (fst sg)"
    using assms(1) sa_loop_degenerate [of posDist realDist cities sg r c] by simp
  then show ?thesis
    using assms(2) by simp
qed

lemma sa_iterate_temperature:
  assumes "\<forall>g. fst (posDist g) \<noteq> fst (posDist (snd (posDist g)))"
    and "sa_iterate posDist realDist cities k (s, gen) = Inr (s', gen')"
  shows "\<not> absoluteTemperature < T s' \<or> T s' = T s * coolingRate ^ k"
  using assms(2)
proof (induction k arbitrary: s' gen')
  case 0
  then show ?case by simp
next
  case (Suc k)
  from Suc.prems obtain sg1 where
    k: "sa_iterate posDist realDist cities k (s, gen) = Inr sg1"
    and alt: "(\<not> absoluteTemperature < T (fst sg1) \<and> (s', gen') = sg1)
         \<or> (absoluteTemperature < T (fst sg1)
             \<and> sa_body posDist realDist cities sg1 = Inr (s', gen'))"
    by (rule sa_iterate_step)
  obtain s1 g1 where sg1: "sg1 = (s1, g1)"
    by (cases sg1)
  from alt show ?case
  proof
    assume "\<not> absoluteTemperature < T (fst sg1) \<and> (s', gen') = sg1"
    then show ?thesis by auto
  next
    assume hot: "absoluteTemperature < T (fst sg1)
             \<and> sa_body posDist realDist cities sg1 = Inr (s', gen')"
    then have b: "sa_body posDist realDist cities (s1, g1) = Inr (s', gen')"
      using sg1 by simp
    have "fst (posDist g1) \<noteq> fst (posDist (snd (posDist g1)))"
      using assms(1) by simp
    with b have "T s' = T s1 * coolingRate"
      by (rule sa_body_cools)
    moreover have "T s1 = T s * coolingRate ^ k"
      using Suc.IH [of s1 g1] k sg1 hot by simp
    ultimately show ?thesis
      by simp
  qed
qed

lemma cooling_reaches_floor: "\<exists>k. t * coolingRate ^ k \<le> absoluteTemperature"
proof (cases "0 < t")
  case False
  then have "t * coolingRate ^ 0 \<le> absoluteTemperature"
    by (simp add: absoluteTemperature_def)
  then show ?thesis
    by (rule exI)
next
  case True
  then have "0 < absoluteTemperature / t"
    by (simp add: absoluteTemperature_def)
  moreover have "coolingRate < 1"
    by (simp add: coolingRate_def)
  ultimately obtain k where "coolingRate ^ k < absoluteTemperature / t"
    using real_arch_pow_inv by blast
  then have "t * coolingRate ^ k < absoluteTemperature"
    using True by (simp add: pos_less_divide_eq mult.commute)
  then have "t * coolingRate ^ k \<le> absoluteTemperature"
    by simp
  then show ?thesis
    by (rule exI)
qed

lemma sa_loop_terminates:
  assumes "is_permutation n (tour s)" and "n \<le> length cities"
    and "\<forall>g. fst (posDist g) < n"
    and "\<forall>g. fst (posDist g) \<noteq> fst (posDist (snd (posDist g)))"
  shows "\<exists>s' gen'. sa_loop posDist realDist cities (s, gen) = Some (Inr (s', gen'))"
proof -
  obtain k where cold: "T s * coolingRate ^ k \<le> absoluteTemperature"
    using cooling_reaches_floor by blast
  obtain s' gen' where run: "sa_iterate posDist realDist cities k (s, gen) = Inr (s', gen')"
    using sa_iterate_total [OF assms(1,2,3)] by blast
  have "\<not> absoluteTemperature < T s'"
    using sa_iterate_temperature [OF assms(4) run] cold by auto
  then have "\<not> absoluteTemperature < T (fst (s', gen'))"
    by simp
  with run have "sa_loop posDist realDist cities (s, gen) = Some (Inr (s', gen'))"
    by (rule sa_iterate_loop)
  then show ?thesis
    by blast
qed

lemma initial_state_consistent:
  assumes "totalDistance tour0 cities = Inr d"
  shows "cost_consistent cities (initial_state tour0 d)"
  using assms by (simp add: cost_consistent_def initial_state_def)

lemma simulatedAnnealing_Inr:
  assumes "simulatedAnnealing posDist realDist tour0 cities gen = Some (Inr result)"
  obtains d sg where "tour0 \<noteq> []" and "totalDistance tour0 cities = Inr d"
    and "sa_loop posDist realDist cities (initial_state tour0 d, gen) = Some (Inr sg)"
    and "result = bestTour (fst sg)"
  using assms
  by (auto simp: simulatedAnnealing_def split: if_splits sum.splits option.splits)

lemma single_city_loops:
  assumes "\<forall>g. fst (posDist g) < 1"
  shows "simulatedAnnealing posDist realDist [0] [c] gen = None"
proof -
  have "valid_tour [0] [c]"
    by (simp add: valid_tour_def)
  then have "totalDistance [0] [c] = Inr (spec_totalCost [0] [c])"
    by (rule totalDistance_spec)
  then have d: "totalDistance [0] [c] = Inr 0"
    by (simp add: spec_totalCost_small)
  have const: "\<forall>g. fst (posDist g) = 0"
    using assms by simp
  have "absoluteTemperature < T (fst (initial_state [0] 0, gen))"
    by (simp add: initial_state_def initialTemperature_def absoluteTemperature_def)
  with const have "sa_loop posDist realDist [c] (initial_state [0] 0, gen) = None"
    by (rule sa_loop_never_returns)
  then show ?thesis
    using d by (simp add: simulatedAnnealing_def)
qed

section \<open>Facts about the example data\<close>

lemma square_cost_0123: "totalDistance [0, 1, 2, 3] unit_square = Inr 4"
proof -
  have v: "valid_tour [0, 1, 2, 3] unit_square"
    by (simp add: valid_tour_def unit_square_def)
  have c: "spec_totalCost [0, 1, 2, 3] unit_square = 4"
    by (simp add: spec_totalCost_def cyclic_edges_def unit_square_def euclideanDistance_def upt_rec)
  show ?thesis
    using c totalDistance_spec [OF v] by simp
qed

lemma square_cost_0213: "totalDistance [0, 2, 1, 3] unit_square = Inr (2 + 2 * sqrt 2)"
proof -
  have v: "valid_tour [0, 2, 1, 3] unit_square"
    by (simp add: valid_tour_def unit_square_def)
  have c: "spec_totalCost [0, 2, 1, 3] unit_square = 2 + 2 * sqrt 2"
    by (simp add: spec_totalCost_def cyclic_edges_def unit_square_def euclideanDistance_def upt_rec)
  show ?thesis
    using c totalDistance_spec [OF v] by simp
qed

lemma reverse_1_3: "std_reverse 1 3 [0, 1, 2, 3 :: int] = Inr [0, 2, 1, 3]"
  by (simp add: std_reverse_def)

lemma sqrt2_bound: "5 / 4 \<le> sqrt 2"
  by (rule real_le_rsqrt) (simp add: power2_eq_square)

lemma exp_neg_le_half:
  assumes "1 \<le> (z::real)"
  shows "exp (- z) \<le> 1 / 2"
proof -
  have "2 \<le> 1 + z"
    using assms by simp
  also have "\<dots> \<le> exp z"
    by (rule exp_ge_add_one_self)
  finally have "2 \<le> exp z" .
  then have "inverse (exp z) \<le> inverse 2"
    by (intro le_imp_inverse_le) simp_all
  then show ?thesis
    by (simp add: exp_minus)
qed

lemma sqrt2_upper: "sqrt 2 \<le> 3 / 2"
  by (rule real_le_lsqrt) (simp_all add: power2_eq_square)

lemma uphill_accepted_hot: "1 / 2 < exp (- (2 + 2 * sqrt 2 - 4) / 10000)"
proof -
  have "1 / 2 < 1 + (- (2 + 2 * sqrt 2 - 4) / 10000)"
    using sqrt2_upper by (simp add: field_simps)
  also have "\<dots> \<le> exp (- (2 + 2 * sqrt 2 - 4) / 10000)"
    by (rule exp_ge_add_one_self)
  finally show ?thesis .
qed

lemma uphill_rejected: "\<not> 1 / 2 < exp (- (2 + 2 * sqrt 2 - 4) / (1 / 2))"
proof -
  have "1 \<le> (2 + 2 * sqrt 2 - 4) / (1 / 2)"
    using sqrt2_bound by simp
  then have "exp (- ((2 + 2 * sqrt 2 - 4) / (1 / 2))) \<le> 1 / 2"
    by (rule exp_neg_le_half)
  then show ?thesis
    by simp
qed

lemma replay_in_range:
  assumes "ds \<noteq> []" and "\<forall>d\<in>set ds. d < n"
  shows "fst (replay ds g) < (n::nat)"
proof -
  have "g mod length ds < length ds"
    using assms(1) by simp
  then have "ds ! (g mod length ds) \<in> set ds"
    by (rule nth_mem)
  then show ?thesis
    using assms(2) by (simp add: replay_def)
qed

lemma replay_pair: "replay [a, b] g = (if even g then a else b, Suc g)"
proof (cases "even g")
  case True
  then have "g mod Suc (Suc 0) = 0"
    by presburger
  then show ?thesis
    using True by (simp add: replay_def)
next
  case False
  then have "g mod Suc (Suc 0) = Suc 0"
    by presburger
  then show ?thesis
    using False by (simp add: replay_def)
qed

lemma replay_3_1_distinct:
  "fst (replay [3, 1 :: nat] g) \<noteq> fst (replay [3, 1 :: nat] (snd (replay [3, 1 :: nat] g)))"
  by (simp add: replay_pair)

lemma square_permutation: "is_permutation 4 (tour (square_state t))"
  by (simp add: is_permutation_def square_state_def upt_rec)

lemma square_uphill_accepted:
  "sa_body (replay [3, 1]) (replay [0]) unit_square (square_state t, 0)
     = Inr (\<lparr>tour = [0, 2, 1, 3], T = t * coolingRate,
             currentDistance = 2 + 2 * sqrt 2,
             bestTour = [0, 1, 2, 3], bestDistance = 4\<rparr>, 3)"
proof -
  have d1: "replay [3, 1 :: nat] 0 = (3, 1)" and d2: "replay [3, 1 :: nat] 1 = (1, 2)"
    and d3: "replay [0 :: real] 2 = (0, 3)"
    by (simp_all add: replay_def)
  have r: "std_reverse (min 3 1) (max 3 1) (tour (square_state t)) = Inr [0, 2, 1, 3]"
    by (simp add: square_state_def std_reverse_def)
  have up: "\<not> 2 + 2 * sqrt 2 - currentDistance (square_state t) < 0"
    using sqrt2_bound by (simp add: square_state_def)
  have "sa_body (replay [3, 1]) (replay [0]) unit_square (square_state t, 0)
          = Inr (cool (accept_move (square_state t) [0, 2, 1, 3] (2 + 2 * sqrt 2)), 3)"
    using sa_body_move [where posDist = "replay [3, 1]" and realDist = "replay [0]"
                          and gen = 0 and ?gen1.0 = 1 and ?gen2.0 = 2,
                        OF d1 d2 _ r square_cost_0213 d3] up
    by simp
  moreover have "cool (accept_move (square_state t) [0, 2, 1, 3] (2 + 2 * sqrt 2))
      = \<lparr>tour = [0, 2, 1, 3], T = t * coolingRate, currentDistance = 2 + 2 * sqrt 2,
         bestTour = [0, 1, 2, 3], bestDistance = 4\<rparr>"
    using up by (simp add: cool_def accept_move_def square_state_def)
  ultimately show ?thesis
    by simp
qed

lemma square_run_1:
  assumes "absoluteTemperature < t"
  shows "sa_iterate (replay [3, 1]) (replay [0]) unit_square 1 (square_state t, 0)
     = Inr (\<lparr>tour = [0, 2, 1, 3], T = t * coolingRate,
             currentDistance = 2 + 2 * sqrt 2,
             bestTour = [0, 1, 2, 3], bestDistance = 4\<rparr>, 3)"
proof -
  have "absoluteTemperature < T (square_state t)"
    using assms by (simp add: square_state_def)
  then show ?thesis
    using square_uphill_accepted [of t] by simp
qed

lemma square_hot: "absoluteTemperature < 10000"
  by (simp add: absoluteTemperature_def)

section \<open>Claims about the cost model and the move\<close>

text \<open>
  C5. For every tour whose entries index the city collection, \<^verbatim>\<open>totalDistance\<close> returns
  the sum of the Euclidean distance over the consecutive pairs of the cyclic order, the
  edge from the last position back to the first included: the edge list has exactly as
  many entries as the tour has positions. For a tour of length at most 1 the result is 0.
\<close>

theorem totalDistance_cyclic_sum:
  assumes "valid_tour tr cities"
  shows "totalDistance tr cities = Inr (spec_totalCost tr cities)
         \<and> length (cyclic_edges tr) = length tr
         \<and> (length tr \<le> 1 \<longrightarrow> totalDistance tr cities = Inr 0)"
  using totalDistance_spec [OF assms] spec_totalCost_small [of tr cities]
  by (simp add: cyclic_edges_def)

theorem totalDistance_cyclic_sum_witness:
  "valid_tour [0, 1, 2, 3] unit_square
   \<and> totalDistance [0, 1, 2, 3] unit_square = Inr 4
   \<and> length (cyclic_edges [0, 1, 2, 3]) = 4
   \<and> valid_tour [0] unit_square \<and> totalDistance [0] unit_square = Inr 0"
proof -
  have v: "valid_tour [0, 1, 2, 3] unit_square"
    by (simp add: valid_tour_def unit_square_def)
  have c: "spec_totalCost [0, 1, 2, 3] unit_square = 4"
    by (simp add: spec_totalCost_def cyclic_edges_def unit_square_def euclideanDistance_def
                  upt_rec)
  have v1: "valid_tour [0] unit_square"
    by (simp add: valid_tour_def unit_square_def)
  have small: "totalDistance [0] unit_square = Inr 0"
    using totalDistance_cyclic_sum [OF v1, THEN conjunct2, THEN conjunct2] by simp
  have "totalDistance [0, 1, 2, 3] unit_square = Inr 4
        \<and> length (cyclic_edges [0, 1, 2, 3]) = 4"
    using c totalDistance_cyclic_sum [OF v] by simp
  then show ?thesis
    using v v1 small by simp
qed

text \<open>
  C1. The claim is that the move reverses the inclusive range \<open>[i, j]\<close>. The engine calls
  \<^verbatim>\<open>std::reverse(tour.begin() + i, tour.begin() + j)\<close>, which reverses the half-open
  range \<open>[i, j)\<close> (lemma \<open>std_reverse_nth\<close>): position \<open>j\<close> keeps its element. On the tour
  \<open>[0, 1, 2, 3]\<close> with the draws 3 and 1 the engine evaluates and accepts the candidate
  \<open>[0, 2, 1, 3]\<close>, where the inclusive reversal is \<open>[0, 3, 2, 1]\<close>.
\<close>

theorem segment_reversal_is_half_open:
  "std_reverse 1 3 [0, 1, 2, 3 :: int] = Inr [0, 2, 1, 3]
   \<and> spec_reverse_inclusive 1 3 [0, 1, 2, 3 :: int] = [0, 3, 2, 1]
   \<and> sa_body (replay [3, 1]) (replay [0]) unit_square (square_state 10000, 0)
       = Inr (\<lparr>tour = [0, 2, 1, 3], T = 10000 * coolingRate,
               currentDistance = 2 + 2 * sqrt 2,
               bestTour = [0, 1, 2, 3], bestDistance = 4\<rparr>, 3)"
proof -
  have "spec_reverse_inclusive 1 3 [0, 1, 2, 3 :: int] = [0, 3, 2, 1]"
    by (simp add: spec_reverse_inclusive_def upt_rec)
  then show ?thesis
    using reverse_1_3 square_uphill_accepted [of 10000] by simp
qed

text \<open>
  C3. The claim is that every evaluated candidate differs from the current tour. With
  the adjacent draws 0 and 1 the test \<^verbatim>\<open>i == j\<close> does not fire, the reversed range
  \<open>[0, 1)\<close> has one element (lemma \<open>std_reverse_adjacent\<close>), and the engine computes
  the cost of the unchanged tour, accepts it (\<open>delta = 0\<close>, \<open>exp 0 = 1 > u\<close>) and cools the
  temperature.
\<close>

theorem adjacent_draw_is_noop:
  "std_reverse 0 1 (tour (square_state 10000)) = Inr (tour (square_state 10000))
   \<and> sa_body (replay [0, 1]) (replay [1 / 2]) unit_square (square_state 10000, 0)
       = Inr (cool (square_state 10000), 3)"
proof -
  have d1: "replay [0, 1 :: nat] 0 = (0, 1)" and d2: "replay [0, 1 :: nat] 1 = (1, 2)"
    and d3: "replay [1 / 2 :: real] 2 = (1 / 2, 3)"
    by (simp_all add: replay_def)
  have r: "std_reverse (min 0 1) (max 0 1) (tour (square_state 10000)) = Inr [0, 1, 2, 3]"
    by (simp add: square_state_def std_reverse_def)
  have same: "accept_move (square_state 10000) [0, 1, 2, 3] 4 = square_state 10000"
    by (simp add: accept_move_def square_state_def)
  have "sa_body (replay [0, 1]) (replay [1 / 2]) unit_square (square_state 10000, 0)
          = Inr (cool (square_state 10000), 3)"
    using sa_body_move [where posDist = "replay [0, 1]" and realDist = "replay [1 / 2]"
                          and gen = 0 and ?gen1.0 = 1 and ?gen2.0 = 2,
                        OF d1 d2 _ r square_cost_0123 d3] same
    by (simp add: square_state_def)
  then show ?thesis
    by (simp add: square_state_def std_reverse_def)
qed

text \<open>
  C4. In a pass that evaluates a move (the two drawn positions differ, the candidate
  \<open>tour1\<close> has the cost \<open>newDistance\<close>), with \<open>delta = newDistance - currentDistance\<close>
  and \<open>u\<close> the real drawn next: the pass succeeds and cools the temperature, and the
  move is accepted exactly when \<open>delta < 0\<close> or \<open>exp (- delta / T) > u\<close>. Accepted means
  that the candidate becomes the working tour with \<open>newDistance\<close> as its cost, and
  the best tour and cost are replaced when \<open>newDistance\<close> is below the best cost;
  rejected means that working tour, cost, best tour and best cost are as before.
  For \<open>delta < 0\<close> the real distribution is not consulted: the generator is left
  as the two position draws left it. (\<open>exp\<close> is the real exponential.)
\<close>

theorem acceptance_rule:
  assumes "posDist gen = (i0, gen1)" and "posDist gen1 = (j0, gen2)" and "i0 \<noteq> j0"
    and "std_reverse (min i0 j0) (max i0 j0) (tour s) = Inr tour1"
    and "totalDistance tour1 cities = Inr newDistance"
    and "realDist gen2 = (u, gen3)"
  shows "\<exists>s' gen'. sa_body posDist realDist cities (s, gen) = Inr (s', gen')
           \<and> T s' = T s * coolingRate
           \<and> gen' = (if newDistance - currentDistance s < 0 then gen2 else gen3)
           \<and> (if newDistance - currentDistance s < 0
                   \<or> exp (- (newDistance - currentDistance s) / T s) > u
                then tour s' = tour1 \<and> currentDistance s' = newDistance
                     \<and> bestDistance s'
                          = (if newDistance < bestDistance s then newDistance else bestDistance s)
                     \<and> bestTour s'
                          = (if newDistance < bestDistance s then tour1 else bestTour s)
                else tour s' = tour s \<and> currentDistance s' = currentDistance s
                     \<and> bestDistance s' = bestDistance s \<and> bestTour s' = bestTour s)"
proof -
  note body = sa_body_move [where posDist = posDist and realDist = realDist and gen = gen
                        and ?gen1.0 = gen1 and ?gen2.0 = gen2, OF assms]
  consider (down) "newDistance - currentDistance s < 0"
    | (up) "\<not> newDistance - currentDistance s < 0"
           "exp (- (newDistance - currentDistance s) / T s) > u"
    | (rej) "\<not> newDistance - currentDistance s < 0"
            "\<not> exp (- (newDistance - currentDistance s) / T s) > u"
    by blast
  then show ?thesis
  proof cases
    case down
    then have "sa_body posDist realDist cities (s, gen)
                 = Inr (cool (accept_move s tour1 newDistance), gen2)"
      using body by simp
    then show ?thesis
      using down by (simp add: bestDistance_accept_move bestTour_accept_move)
  next
    case up
    then have "sa_body posDist realDist cities (s, gen)
                 = Inr (cool (accept_move s tour1 newDistance), gen3)"
      using body by simp
    then show ?thesis
      using up by (simp add: bestDistance_accept_move bestTour_accept_move)
  next
    case rej
    then have "sa_body posDist realDist cities (s, gen) = Inr (cool s, gen3)"
      using body by simp
    then show ?thesis
      using rej by simp
  qed
qed

theorem acceptance_rule_witness:
  "(\<exists>s'. sa_body (replay [1, 3]) (replay [1 / 2]) unit_square
              (initial_state [0, 2, 1, 3] (2 + 2 * sqrt 2), 0) = Inr (s', 2)
         \<and> tour s' = [0, 1, 2, 3] \<and> currentDistance s' = 4
         \<and> bestTour s' = [0, 1, 2, 3] \<and> bestDistance s' = 4
         \<and> T s' = 10000 * coolingRate)
   \<and> (\<exists>s'. sa_body (replay [3, 1]) (replay [1 / 2]) unit_square (square_state 10000, 0)
              = Inr (s', 3)
         \<and> tour s' = [0, 2, 1, 3] \<and> currentDistance s' = 2 + 2 * sqrt 2
         \<and> bestTour s' = [0, 1, 2, 3] \<and> bestDistance s' = 4
         \<and> T s' = 10000 * coolingRate)
   \<and> (\<exists>s'. sa_body (replay [3, 1]) (replay [1 / 2]) unit_square (square_state (1 / 2), 0)
              = Inr (s', 3)
         \<and> tour s' = [0, 1, 2, 3] \<and> currentDistance s' = 4
         \<and> bestTour s' = [0, 1, 2, 3] \<and> bestDistance s' = 4
         \<and> T s' = 1 / 2 * coolingRate)"
proof -
  have a1: "replay [1, 3 :: nat] 0 = (1, 1)" and a2: "replay [1, 3 :: nat] 1 = (3, 2)"
    and d1: "replay [3, 1 :: nat] 0 = (3, 1)" and d2: "replay [3, 1 :: nat] 1 = (1, 2)"
    and d3: "replay [1 / 2 :: real] 2 = (1 / 2, 3)"
    by (simp_all add: replay_def)
  have ne: "(1::nat) \<noteq> 3" and ne': "(3::nat) \<noteq> 1"
    by simp_all
  have ra: "std_reverse (min 1 3) (max 1 3) (tour (initial_state [0, 2, 1, 3] (2 + 2 * sqrt 2)))
              = Inr [0, 1, 2, 3]"
    by (simp add: initial_state_def std_reverse_def)
  have rd: "std_reverse (min 3 1) (max 3 1) (tour (square_state t)) = Inr [0, 2, 1, 3]" for t
    by (simp add: square_state_def std_reverse_def)
  have down: "4 - (2 + 2 * sqrt 2) < 0"
    using sqrt2_bound by simp
  have up: "\<not> 2 + 2 * sqrt 2 - 4 < 0"
    using sqrt2_bound by simp
  have worse: "\<not> 2 + 2 * sqrt 2 < 4"
    using sqrt2_bound by simp
  have first: "\<exists>s'. sa_body (replay [1, 3]) (replay [1 / 2]) unit_square
              (initial_state [0, 2, 1, 3] (2 + 2 * sqrt 2), 0) = Inr (s', 2)
         \<and> tour s' = [0, 1, 2, 3] \<and> currentDistance s' = 4
         \<and> bestTour s' = [0, 1, 2, 3] \<and> bestDistance s' = 4
         \<and> T s' = 10000 * coolingRate"
    using acceptance_rule [where posDist = "replay [1, 3]" and realDist = "replay [1 / 2]"
                             and gen = 0 and ?gen1.0 = 1 and ?gen2.0 = 2,
                           OF a1 a2 ne ra square_cost_0123 d3] down sqrt2_bound
    by (auto simp add: initial_state_def initialTemperature_def)
  have second: "\<exists>s'. sa_body (replay [3, 1]) (replay [1 / 2]) unit_square
              (square_state 10000, 0) = Inr (s', 3)
         \<and> tour s' = [0, 2, 1, 3] \<and> currentDistance s' = 2 + 2 * sqrt 2
         \<and> bestTour s' = [0, 1, 2, 3] \<and> bestDistance s' = 4
         \<and> T s' = 10000 * coolingRate"
    using acceptance_rule [where posDist = "replay [3, 1]" and realDist = "replay [1 / 2]"
                             and gen = 0 and ?gen1.0 = 1 and ?gen2.0 = 2,
                           OF d1 d2 ne' rd square_cost_0213 d3, of 10000]
          up worse uphill_accepted_hot
    by (auto simp add: square_state_def)
  have third: "\<exists>s'. sa_body (replay [3, 1]) (replay [1 / 2]) unit_square
              (square_state (1 / 2), 0) = Inr (s', 3)
         \<and> tour s' = [0, 1, 2, 3] \<and> currentDistance s' = 4
         \<and> bestTour s' = [0, 1, 2, 3] \<and> bestDistance s' = 4
         \<and> T s' = 1 / 2 * coolingRate"
    using acceptance_rule [where posDist = "replay [3, 1]" and realDist = "replay [1 / 2]"
                             and gen = 0 and ?gen1.0 = 1 and ?gen2.0 = 2,
                           OF d1 d2 ne' rd square_cost_0213 d3, of "1 / 2"]
          up uphill_rejected
    by (auto simp add: square_state_def)
  show ?thesis
    using first second third by blast
qed

text \<open>
  C9. The reversal the engine applies is its own inverse: for positions \<open>i < j\<close> inside
  the tour, applying it twice gives the tour back. Hence a rejected move, which the
  engine undoes by the same call, leaves the working tour and its cached cost as they
  were before the move.
\<close>

theorem reversal_involution_rollback:
  assumes "i < j" and "j \<le> length (tour s)"
  shows "\<exists>tour1. std_reverse i j (tour s) = Inr tour1
           \<and> std_reverse i j tour1 = Inr (tour s)
           \<and> (posDist gen = (i0, gen1) \<longrightarrow> posDist gen1 = (j0, gen2)
                \<longrightarrow> min i0 j0 = i \<longrightarrow> max i0 j0 = j
                \<longrightarrow> totalDistance tour1 cities = Inr newDistance
                \<longrightarrow> realDist gen2 = (u, gen3)
                \<longrightarrow> \<not> newDistance - currentDistance s < 0
                \<longrightarrow> \<not> u < exp (- (newDistance - currentDistance s) / T s)
                \<longrightarrow> (\<exists>s'. sa_body posDist realDist cities (s, gen) = Inr (s', gen3)
                          \<and> tour s' = tour s \<and> currentDistance s' = currentDistance s))"
proof -
  obtain tour1 where r: "std_reverse i j (tour s) = Inr tour1"
    using assms by (simp add: std_reverse_def)
  have u: "std_reverse i j tour1 = Inr (tour s)"
    using r by (rule std_reverse_twice)
  have "\<exists>s'. sa_body posDist realDist cities (s, gen) = Inr (s', gen3)
              \<and> tour s' = tour s \<and> currentDistance s' = currentDistance s"
    if d1: "posDist gen = (i0, gen1)" and d2: "posDist gen1 = (j0, gen2)"
      and mi: "min i0 j0 = i" and ma: "max i0 j0 = j"
      and c: "totalDistance tour1 cities = Inr newDistance"
      and d3: "realDist gen2 = (u, gen3)"
      and up: "\<not> newDistance - currentDistance s < 0"
      and rej: "\<not> u < exp (- (newDistance - currentDistance s) / T s)"
  proof -
    have ne: "i0 \<noteq> j0"
      using assms(1) mi ma by auto
    have r': "std_reverse (min i0 j0) (max i0 j0) (tour s) = Inr tour1"
      using r mi ma by simp
    have "sa_body posDist realDist cities (s, gen) = Inr (cool s, gen3)"
      using sa_body_move [where posDist = posDist and realDist = realDist and gen = gen
                            and ?gen1.0 = gen1 and ?gen2.0 = gen2, OF d1 d2 ne r' c d3] up rej
      by simp
    then show ?thesis
      by simp
  qed
  then show ?thesis
    using r u by blast
qed

theorem reversal_involution_rollback_witness:
  "(1::nat) < 3 \<and> 3 \<le> length (tour (square_state (1 / 2)))
   \<and> std_reverse 1 3 [0, 1, 2, 3 :: int] = Inr [0, 2, 1, 3]
   \<and> std_reverse 1 3 [0, 2, 1, 3 :: int] = Inr [0, 1, 2, 3]
   \<and> (\<exists>s'. sa_body (replay [3, 1]) (replay [1 / 2]) unit_square (square_state (1 / 2), 0)
               = Inr (s', 3)
             \<and> tour s' = [0, 1, 2, 3] \<and> currentDistance s' = 4)"
proof -
  have lt: "(1::nat) < 3" and le: "3 \<le> length (tour (square_state (1 / 2)))"
    by (simp_all add: square_state_def)
  have d1: "replay [3, 1 :: nat] 0 = (3, 1)" and d2: "replay [3, 1 :: nat] 1 = (1, 2)"
    and d3: "replay [1 / 2 :: real] 2 = (1 / 2, 3)"
    by (simp_all add: replay_def)
  have r13: "std_reverse 1 3 (tour (square_state (1 / 2))) = Inr [0, 2, 1, 3]"
    by (simp add: square_state_def std_reverse_def)
  have up: "\<not> 2 + 2 * sqrt 2 - currentDistance (square_state (1 / 2)) < 0"
    using sqrt2_bound by (simp add: square_state_def)
  have rej: "\<not> 1 / 2 < exp (- (2 + 2 * sqrt 2 - currentDistance (square_state (1 / 2)))
                              / T (square_state (1 / 2)))"
    using uphill_rejected by (simp add: square_state_def)
  obtain tour1 where
    t1: "std_reverse 1 3 (tour (square_state (1 / 2))) = Inr tour1"
    and t2: "std_reverse 1 3 tour1 = Inr (tour (square_state (1 / 2)))"
    and t3: "replay [3, 1 :: nat] 0 = (3, 1) \<longrightarrow> replay [3, 1 :: nat] 1 = (1, 2)
             \<longrightarrow> min 3 1 = (1::nat) \<longrightarrow> max 3 1 = (3::nat)
             \<longrightarrow> totalDistance tour1 unit_square = Inr (2 + 2 * sqrt 2)
             \<longrightarrow> replay [1 / 2 :: real] 2 = (1 / 2, 3)
             \<longrightarrow> \<not> 2 + 2 * sqrt 2 - currentDistance (square_state (1 / 2)) < 0
             \<longrightarrow> \<not> 1 / 2 < exp (- (2 + 2 * sqrt 2 - currentDistance (square_state (1 / 2)))
                                    / T (square_state (1 / 2)))
             \<longrightarrow> (\<exists>s'. sa_body (replay [3, 1]) (replay [1 / 2]) unit_square
                          (square_state (1 / 2), 0) = Inr (s', 3)
                       \<and> tour s' = tour (square_state (1 / 2))
                       \<and> currentDistance s' = currentDistance (square_state (1 / 2)))"
    using reversal_involution_rollback [OF lt le, where posDist = "replay [3, 1]"
            and gen = 0 and ?i0.0 = 3 and ?gen1.0 = 1 and ?j0.0 = 1 and ?gen2.0 = 2
            and cities = unit_square and newDistance = "2 + 2 * sqrt 2"
            and realDist = "replay [1 / 2]" and u = "1 / 2" and ?gen3.0 = 3]
    by blast
  have eq: "tour1 = [0, 2, 1, 3]"
    using t1 r13 by simp
  have "\<exists>s'. sa_body (replay [3, 1]) (replay [1 / 2]) unit_square (square_state (1 / 2), 0)
               = Inr (s', 3)
             \<and> tour s' = tour (square_state (1 / 2))
             \<and> currentDistance s' = currentDistance (square_state (1 / 2))"
    using t3 d1 d2 d3 up rej square_cost_0213 eq by simp
  then show ?thesis
    using lt t1 t2 eq by (simp add: square_state_def)
qed

section \<open>Claims about the search\<close>

text \<open>
  C6. Permutation invariant. Started on a working tour that is a permutation of \<open>[0, n)\<close>,
  with at least \<open>n\<close> cities and every drawn position below \<open>n\<close>, any number \<open>k\<close> of passes
  through the loop runs without an error, and the working tour is again a permutation of
  \<open>[0, n)\<close>, whether the moves were skipped, accepted or rolled back.
\<close>

theorem permutation_invariant:
  assumes "is_permutation n (tour s)" and "n \<le> length cities"
    and "\<forall>g. fst (posDist g) < n"
  shows "\<exists>s' gen'. sa_iterate posDist realDist cities k (s, gen) = Inr (s', gen')
           \<and> is_permutation n (tour s')"
  using assms by (rule sa_iterate_total)

theorem permutation_invariant_witness:
  "is_permutation 4 [0, 1, 2, 3] \<and> 4 \<le> length unit_square
   \<and> (\<forall>g. fst (replay [3, 1 :: nat] g) < 4)
   \<and> (\<exists>s' gen'. sa_iterate (replay [3, 1]) (replay [0]) unit_square 2 (square_state 10000, 0)
                    = Inr (s', gen')
                  \<and> is_permutation 4 (tour s'))"
proof -
  have p: "is_permutation 4 (tour (square_state 10000))"
    by (rule square_permutation)
  have l: "4 \<le> length unit_square"
    by (simp add: unit_square_def)
  have range: "\<forall>g. fst (replay [3, 1 :: nat] g) < 4"
    by (simp add: replay_in_range)
  show ?thesis
    using p l range permutation_invariant [OF p l range, of "replay [0]" 2 0]
    by (simp add: square_state_def)
qed

text \<open>
  C10. Cost consistency. If the cached costs \<open>currentDistance\<close> and \<open>bestDistance\<close> are
  the costs of the working tour and of \<open>bestTour\<close> (as they are in the initial state of the
  engine, lemma \<open>initial_state_consistent\<close>), they are so again at every later iteration
  boundary.
\<close>

theorem cost_consistency:
  assumes "totalDistance (tour s) cities = Inr (currentDistance s)"
    and "totalDistance (bestTour s) cities = Inr (bestDistance s)"
    and "sa_iterate posDist realDist cities k (s, gen) = Inr (s', gen')"
  shows "totalDistance (tour s') cities = Inr (currentDistance s')
         \<and> totalDistance (bestTour s') cities = Inr (bestDistance s')"
proof -
  have "cost_consistent cities (fst (s, gen))"
    using assms(1,2) by (simp add: cost_consistent_def)
  then have "cost_consistent cities (fst (s', gen'))"
    using assms(3) by (rule sa_iterate_consistent)
  then show ?thesis
    by (simp add: cost_consistent_def)
qed

theorem cost_consistency_witness:
  "totalDistance [0, 1, 2, 3] unit_square = Inr 4
   \<and> sa_iterate (replay [3, 1]) (replay [0]) unit_square 1 (square_state 10000, 0)
       = Inr (\<lparr>tour = [0, 2, 1, 3], T = 10000 * coolingRate,
               currentDistance = 2 + 2 * sqrt 2,
               bestTour = [0, 1, 2, 3], bestDistance = 4\<rparr>, 3)
   \<and> totalDistance [0, 2, 1, 3] unit_square = Inr (2 + 2 * sqrt 2)"
proof -
  have c: "totalDistance (tour (square_state 10000)) unit_square
             = Inr (currentDistance (square_state 10000))"
    and b: "totalDistance (bestTour (square_state 10000)) unit_square
             = Inr (bestDistance (square_state 10000))"
    using square_cost_0123 by (simp_all add: square_state_def)
  show ?thesis
    using cost_consistency [OF c b square_run_1 [OF square_hot]] square_run_1 [OF square_hot]
    by simp
qed

text \<open>
  C7. Best-solution tracking. The tours committed so far are the working tours at the
  iteration boundaries: a pass either keeps the working tour (skip, rollback) or commits
  the candidate. From a state where the best tour is the working tour, as the engine
  starts, the state after \<open>k\<close> passes has a \<open>bestDistance\<close> that is at most the
  \<open>bestDistance\<close> of every earlier boundary (it never increases), at most the cost of the
  working tour at every boundary up to \<open>k\<close>, and equal to the cost of the working tour at
  one of them, which is \<open>bestTour\<close>.
\<close>

theorem best_tracking:
  assumes "totalDistance (tour s0) cities = Inr (currentDistance s0)"
    and "bestTour s0 = tour s0"
    and "bestDistance s0 = currentDistance s0"
    and "sa_iterate posDist realDist cities k (s0, gen0) = Inr (sk, gk)"
  shows "(\<forall>m\<le>k. \<exists>sm gm. sa_iterate posDist realDist cities m (s0, gen0) = Inr (sm, gm)
                    \<and> bestDistance sk \<le> bestDistance sm
                    \<and> totalDistance (tour sm) cities = Inr (currentDistance sm)
                    \<and> bestDistance sk \<le> currentDistance sm)
         \<and> (\<exists>m\<le>k. \<exists>sm gm. sa_iterate posDist realDist cities m (s0, gen0) = Inr (sm, gm)
                    \<and> bestTour sk = tour sm
                    \<and> totalDistance (tour sm) cities = Inr (bestDistance sk))"
  using assms by (rule sa_iterate_best)

theorem best_tracking_witness:
  "sa_iterate (replay [3, 1]) (replay [0]) unit_square 1 (square_state 10000, 0)
       = Inr (\<lparr>tour = [0, 2, 1, 3], T = 10000 * coolingRate,
               currentDistance = 2 + 2 * sqrt 2,
               bestTour = [0, 1, 2, 3], bestDistance = 4\<rparr>, 3)
   \<and> (\<exists>sm gm. sa_iterate (replay [3, 1]) (replay [0]) unit_square 0
                           (square_state 10000, 0) = Inr (sm, gm)
                    \<and> 4 \<le> bestDistance sm
                    \<and> totalDistance (tour sm) unit_square = Inr (currentDistance sm)
                    \<and> 4 \<le> currentDistance sm)
   \<and> (\<exists>sm gm. sa_iterate (replay [3, 1]) (replay [0]) unit_square 1
                           (square_state 10000, 0) = Inr (sm, gm)
                    \<and> 4 \<le> bestDistance sm
                    \<and> totalDistance (tour sm) unit_square = Inr (currentDistance sm)
                    \<and> 4 \<le> currentDistance sm)
   \<and> (\<exists>m sm gm. sa_iterate (replay [3, 1]) (replay [0]) unit_square m
                           (square_state 10000, 0) = Inr (sm, gm)
                    \<and> [0, 1, 2, 3] = tour sm
                    \<and> totalDistance (tour sm) unit_square = Inr 4)"
proof -
  have c: "totalDistance (tour (square_state 10000)) unit_square
             = Inr (currentDistance (square_state 10000))"
    using square_cost_0123 by (simp add: square_state_def)
  have t: "bestTour (square_state 10000) = tour (square_state 10000)"
    and d: "bestDistance (square_state 10000) = currentDistance (square_state 10000)"
    by (simp_all add: square_state_def)
  note run = square_run_1 [OF square_hot]
  have all: "\<forall>m\<le>1. \<exists>sm gm. sa_iterate (replay [3, 1]) (replay [0]) unit_square m
                           (square_state 10000, 0) = Inr (sm, gm)
                    \<and> 4 \<le> bestDistance sm
                    \<and> totalDistance (tour sm) unit_square = Inr (currentDistance sm)
                    \<and> 4 \<le> currentDistance sm"
    and ex: "\<exists>m\<le>1. \<exists>sm gm. sa_iterate (replay [3, 1]) (replay [0]) unit_square m
                           (square_state 10000, 0) = Inr (sm, gm)
                    \<and> [0, 1, 2, 3] = tour sm
                    \<and> totalDistance (tour sm) unit_square = Inr 4"
    using best_tracking [OF c t d run] by simp_all
  have m0: "(0::nat) \<le> 1" and m1: "(1::nat) \<le> 1"
    by simp_all
  show ?thesis
    using run all [rule_format, OF m0] all [rule_format, OF m1] ex by blast
qed

text \<open>
  C8. When the engine returns, the loop has stopped at a state whose temperature is at
  most the floor, and the tour handed back is \<open>bestTour\<close> of that state, with the cost
  \<open>bestDistance\<close>; the working tour of that state is not consulted.
\<close>

theorem engine_returns_best:
  assumes "simulatedAnnealing posDist realDist tour0 cities gen = Some (Inr result)"
  shows "\<exists>k d s gen'. totalDistance tour0 cities = Inr d
           \<and> sa_iterate posDist realDist cities k (initial_state tour0 d, gen) = Inr (s, gen')
           \<and> T s \<le> absoluteTemperature
           \<and> result = bestTour s
           \<and> totalDistance result cities = Inr (bestDistance s)"
proof -
  from assms obtain d sg where d: "totalDistance tour0 cities = Inr d"
    and loop: "sa_loop posDist realDist cities (initial_state tour0 d, gen) = Some (Inr sg)"
    and res: "result = bestTour (fst sg)"
    by (rule simulatedAnnealing_Inr)
  obtain k where run: "sa_iterate posDist realDist cities k (initial_state tour0 d, gen) = Inr sg"
    and cold: "\<not> absoluteTemperature < T (fst sg)"
    using sa_loop_Some [OF loop] by blast
  have "cost_consistent cities (fst (initial_state tour0 d, gen))"
    using d by (simp add: initial_state_consistent)
  then have "cost_consistent cities (fst sg)"
    using run by (rule sa_iterate_consistent)
  then have "totalDistance result cities = Inr (bestDistance (fst sg))"
    using res by (simp add: cost_consistent_def)
  moreover have "sa_iterate posDist realDist cities k (initial_state tour0 d, gen)
                   = Inr (fst sg, snd sg)"
    using run by simp
  ultimately show ?thesis
    using d cold res by (intro exI [of _ k] exI [of _ d] exI [of _ "fst sg"] exI [of _ "snd sg"]) simp
qed

theorem engine_returns_best_witness:
  "\<exists>result. simulatedAnnealing (replay [3, 1]) (replay [0]) [0, 1, 2, 3] unit_square 0
                = Some (Inr result)
     \<and> (\<exists>k d s gen'. totalDistance [0, 1, 2, 3] unit_square = Inr d
           \<and> sa_iterate (replay [3, 1]) (replay [0]) unit_square k
                 (initial_state [0, 1, 2, 3] d, 0) = Inr (s, gen')
           \<and> T s \<le> absoluteTemperature
           \<and> result = bestTour s
           \<and> totalDistance result unit_square = Inr (bestDistance s))"
proof -
  have init: "initial_state [0, 1, 2, 3] 4 = square_state 10000"
    by (simp add: initial_state_def square_state_def initialTemperature_def)
  have range: "\<forall>g. fst (replay [3, 1 :: nat] g) < 4"
    by (simp add: replay_in_range)
  have "\<exists>s' gen'. sa_loop (replay [3, 1]) (replay [0]) unit_square (square_state 10000, 0)
          = Some (Inr (s', gen'))"
    using square_permutation _ range
  proof (rule sa_loop_terminates)
    show "4 \<le> length unit_square"
      by (simp add: unit_square_def)
    show "\<forall>g. fst (replay [3, 1 :: nat] g)
               \<noteq> fst (replay [3, 1 :: nat] (snd (replay [3, 1 :: nat] g)))"
      using replay_3_1_distinct by blast
  qed
  then obtain s' gen' where
    "sa_loop (replay [3, 1]) (replay [0]) unit_square (initial_state [0, 1, 2, 3] 4, 0)
       = Some (Inr (s', gen'))"
    using init by auto
  then have ret: "simulatedAnnealing (replay [3, 1]) (replay [0]) [0, 1, 2, 3] unit_square 0
               = Some (Inr (bestTour s'))"
    using square_cost_0123 by (simp add: simulatedAnnealing_def)
  show ?thesis
    using ret engine_returns_best [OF ret] by blast
qed

text \<open>
  C2. The claim is that the engine returns at once for fewer than two cities. For one
  city the distribution \<^verbatim>\<open>dist(0, 0)\<close> draws \<open>i = j = 0\<close> every time, \<^verbatim>\<open>continue\<close> skips
  the cooling, and the loop never ends: the engine does not return. (For an empty tour
  the distribution \<^verbatim>\<open>dist(0, -1)\<close> is undefined; \<^verbatim>\<open>main\<close> does not call the engine then.)
\<close>

theorem single_city_never_returns:
  "simulatedAnnealing (replay [0]) realDist [0] [c] gen = None"
proof (rule single_city_loops)
  show "\<forall>g. fst (replay [0 :: nat] g) < 1"
    by (simp add: replay_def)
qed

end
